theory Spec2Isabelle
  imports Main
begin

section \<open>HostelSync: the laundry state machine and the booking ledger of script.js\<close>

text \<open>
  The application keeps one global object \<open>state\<close> and mutates it from every operation.
  Here the object is a record passed to each operation and returned updated. The clock
  (\<open>Date.now()\<close>) is a parameter \<open>now\<close> of every operation that reads it; timestamps,
  ETAs and counters are JavaScript numbers holding whole values and are modelled as \<open>int\<close>.
  Identifiers built from the clock (\<open>n-1234\<close>, \<open>w-1234\<close>, \<open>b-1234\<close>, \<open>u-1234\<close>) are
  represented by the number they are built from. Rendering, persistence
  (\<open>saveState\<close>) and the browser's native toast have no effect on the state and are left out,
  as are the two display-only machine fields \<open>liveAvailability\<close> and \<open>liveLog\<close>.
\<close>

subsection \<open>Data model\<close>

datatype mstatus = FREE | RUNNING | AWAITING | MAINT

datatype wstatus = WASH_RUNNING | WASH_AWAITING | WASH_COLLECTED

datatype bstatus = PENDING | APPROVED | REJECTED | CANCELLED

datatype kind = Info | Success | Warning | Report

record notice =
  n_id :: int
  n_title :: string
  n_time :: int
  n_kind :: kind

text \<open>
  An optional field of a JavaScript object (\<open>eta\<close>, \<open>lastCompletedAt\<close>, the two counters,
  \<open>ownerId\<close>, \<open>endAt\<close> of a wash) is an \<open>option\<close>: \<open>None\<close> stands for \<open>undefined\<close> and
  \<open>null\<close>, which the source never tells apart (\<open>!= null\<close>, \<open>== null\<close>, truthiness).
\<close>

record machine =
  m_id :: string
  m_label :: string
  m_hostel :: string
  m_floor :: int
  m_status :: mstatus
  m_eta :: "int option"
  m_lastCompletedAt :: "int option"
  m_nudgeCount :: "int option"
  m_flagCount :: "int option"
  m_ownerId :: "int option"

record wash =
  w_id :: int
  w_machineId :: string
  w_machineLabel :: string
  w_hostel :: string
  w_floor :: int
  w_startAt :: int
  w_endAt :: "int option"
  w_status :: wstatus

record room =
  rm_id :: string
  rm_label :: string
  rm_hasAC :: bool

record booking =
  b_id :: int
  b_roomId :: string
  b_roomLabel :: string
  b_hasAC :: bool
  b_startAt :: int
  b_endAt :: int
  b_reason :: string
  b_status :: bstatus
  b_createdAt :: int
  b_updatedAt :: int

record report_entry =
  r_id :: int
  r_machineId :: string
  r_reason :: string
  r_notes :: string
  r_photoDataUrl :: "string option"
  r_createdAt :: int

record user =
  u_id :: int
  u_email :: string
  u_phone :: "string option"

text \<open>
  \<open>state.watchFree\<close> is an object of objects, hostel to floor to flag. The tick handler
  walks it with \<open>Object.keys\<close>, so the order of the entries matters: it is an association
  list of association lists, one entry per key.
\<close>

record state =
  machines :: "machine list"
  washes :: "wash list"
  notices :: "notice list"
  reports :: "report_entry list"
  watchFree :: "(string \<times> (int \<times> bool) list) list"
  user :: "user option"
  rooms :: "room list"
  bookings :: "booking list"

subsection \<open>Notification sink\<close>

text \<open>
  \<open>pushNotice\<close>: \<open>unshift\<close> puts the new notice in front; when the list is then longer
  than 50, \<open>pop\<close> removes the last entry.
\<close>

definition pushNotice :: "int \<Rightarrow> string \<Rightarrow> kind \<Rightarrow> state \<Rightarrow> state" where
  "pushNotice now title k st =
     (let notice = \<lparr>n_id = now, n_title = title, n_time = now, n_kind = k\<rparr>;
          ns = notice # notices st
      in st\<lparr>notices := (if length ns > 50 then butlast ns else ns)\<rparr>)"

subsection \<open>Booking ledger\<close>

text \<open>\<open>Array.prototype.findIndex\<close>: the first index whose element passes, \<open>None\<close> for -1.\<close>

fun findIndex :: "('a \<Rightarrow> bool) \<Rightarrow> 'a list \<Rightarrow> nat option" where
  "findIndex P [] = None"
| "findIndex P (x # xs) = (if P x then Some 0 else map_option Suc (findIndex P xs))"

definition conflicts :: "string \<Rightarrow> int \<Rightarrow> int \<Rightarrow> booking \<Rightarrow> bool" where
  "conflicts roomId startAt endAt b =
     (if b_roomId b \<noteq> roomId then False
      else if b_status b = CANCELLED \<or> b_status b = REJECTED then False
      else startAt < b_endAt b \<and> endAt > b_startAt b)"

definition checkConflict :: "state \<Rightarrow> string \<Rightarrow> int \<Rightarrow> int \<Rightarrow> bool" where
  "checkConflict st roomId startAt endAt = list_ex (conflicts roomId startAt endAt) (bookings st)"

definition dayMs :: int where
  "dayMs = 24 * 60 * 60 * 1000"

text \<open>
  \<open>submitBooking\<close> stores the request as it receives it: the duration and conflict checks
  are in the submit handler of the room modal, not here. The approval it schedules
  (\<open>simulateApproval\<close>, five seconds later) is an operation of its own.
\<close>

definition submitBooking :: "int \<Rightarrow> room \<Rightarrow> int \<Rightarrow> int \<Rightarrow> string \<Rightarrow> state \<Rightarrow> state" where
  "submitBooking now rm startAt endAt reason st =
     (let bk = \<lparr>b_id = now, b_roomId = rm_id rm, b_roomLabel = rm_label rm,
                 b_hasAC = rm_hasAC rm, b_startAt = startAt, b_endAt = endAt,
                 b_reason = reason, b_status = PENDING, b_createdAt = now,
                 b_updatedAt = now\<rparr>
      in pushNotice now (''Request submitted for '' @ rm_label rm @ ''.'') Info
           (st\<lparr>bookings := bk # bookings st\<rparr>))"

definition simulateApproval :: "int \<Rightarrow> int \<Rightarrow> state \<Rightarrow> state" where
  "simulateApproval now bookingId st =
     (case findIndex (\<lambda>b. b_id b = bookingId) (bookings st) of
        None \<Rightarrow> st
      | Some idx \<Rightarrow>
          (let bk = bookings st ! idx in
           if b_status bk = PENDING then
             pushNotice now
               (''Booking approved for '' @ b_roomLabel bk @ ''. Please keep the room clean and tidy.'')
               Success
               (st\<lparr>bookings := (bookings st)[idx := bk\<lparr>b_status := APPROVED, b_updatedAt := now\<rparr>]\<rparr>)
           else st))"

definition cancelBooking :: "int \<Rightarrow> int \<Rightarrow> state \<Rightarrow> state" where
  "cancelBooking now bid st =
     (case findIndex (\<lambda>b. b_id b = bid) (bookings st) of
        None \<Rightarrow> st
      | Some idx \<Rightarrow>
          (let bk = bookings st ! idx in
           if b_status bk = PENDING \<or> b_status bk = APPROVED then
             pushNotice now (''Booking cancelled for '' @ b_roomLabel bk @ ''.'') Info
               (st\<lparr>bookings := (bookings st)[idx := bk\<lparr>b_status := CANCELLED, b_updatedAt := now\<rparr>]\<rparr>)
           else st))"

text \<open>
  \<open>extendBooking\<close> and \<open>modifyBooking\<close> call \<open>alert\<close> and return before any mutation when a
  check fails: the result \<open>Inl msg\<close> is that alert, with the state left as it was. \<open>Inr\<close> is
  the state after a return without alert: updated on success, the same state when the
  booking is missing or in the wrong status (a silent no-op).
\<close>

definition extendBooking :: "int \<Rightarrow> int \<Rightarrow> int \<Rightarrow> state \<Rightarrow> string + state" where
  "extendBooking now bid newEndAt st =
     (case findIndex (\<lambda>b. b_id b = bid) (bookings st) of
        None \<Rightarrow> Inr st
      | Some idx \<Rightarrow>
          (let bk = bookings st ! idx in
           if b_status bk = APPROVED then
             (let diff = newEndAt - b_startAt bk in
              if diff > dayMs then Inl ''Extension exceeds 24 hours from start time.''
              else if checkConflict st (b_roomId bk) (b_startAt bk) newEndAt
                then Inl ''Requested extension overlaps with another booking.''
              else Inr (pushNotice now (''Extension requested for '' @ b_roomLabel bk @ ''.'') Info
                     (st\<lparr>bookings := (bookings st)
                        [idx := bk\<lparr>b_endAt := newEndAt, b_status := PENDING,
                                   b_updatedAt := now\<rparr>]\<rparr>)))
           else Inr st))"

definition modifyBooking ::
    "int \<Rightarrow> int \<Rightarrow> int \<Rightarrow> int \<Rightarrow> string option \<Rightarrow> state \<Rightarrow> string + state" where
  "modifyBooking now bid newStartAt newEndAt newReason st =
     (case findIndex (\<lambda>b. b_id b = bid) (bookings st) of
        None \<Rightarrow> Inr st
      | Some idx \<Rightarrow>
          (let bk = bookings st ! idx in
           if b_status bk = PENDING \<or> b_status bk = APPROVED then
             (let diff = newEndAt - newStartAt in
              if diff \<le> 0 then Inl ''End time must be after start time.''
              else if diff > dayMs then Inl ''Bookings cannot exceed 24 hours.''
              else if checkConflict st (b_roomId bk) newStartAt newEndAt
                then Inl ''Requested times overlap with another booking.''
              else Inr (pushNotice now (''Booking modified for '' @ b_roomLabel bk @ ''.'') Info
                     (st\<lparr>bookings := (bookings st)
                        [idx := bk\<lparr>b_startAt := newStartAt, b_endAt := newEndAt,
                                   b_reason := (case newReason of None \<Rightarrow> b_reason bk
                                                | Some r \<Rightarrow> r),
                                   b_status := PENDING, b_updatedAt := now\<rparr>]\<rparr>)))
           else Inr st))"

subsection \<open>Machine registry\<close>

text \<open>
  \<open>startWash\<close> and \<open>markCollected\<close> rebuild \<open>state.machines\<close> with \<open>map\<close>, matching on the
  id of the machine they are given; of that machine they read \<open>id\<close>, \<open>label\<close>, \<open>hostel\<close> and
  \<open>floor\<close> only.
\<close>

definition startWash :: "int \<Rightarrow> machine \<Rightarrow> int \<Rightarrow> state \<Rightarrow> state" where
  "startWash now mc minutes st =
     (let ms = map (\<lambda>m. if m_id m = m_id mc
                          then m\<lparr>m_status := RUNNING, m_eta := Some minutes,
                                 m_nudgeCount := Some 0, m_flagCount := Some 0,
                                 m_ownerId := (case user st of None \<Rightarrow> None
                                               | Some u \<Rightarrow> Some (u_id u))\<rparr>
                          else m) (machines st);
          w = \<lparr>w_id = now, w_machineId = m_id mc, w_machineLabel = m_label mc,
                w_hostel = m_hostel mc, w_floor = m_floor mc, w_startAt = now,
                w_endAt = None, w_status = WASH_RUNNING\<rparr>
      in pushNotice now (''Started wash on '' @ m_label mc @ ''.'') Info
           (st\<lparr>machines := ms, washes := w # washes st\<rparr>))"

definition markCollected :: "int \<Rightarrow> machine \<Rightarrow> state \<Rightarrow> state" where
  "markCollected now mc st =
     (let ms = map (\<lambda>m. if m_id m = m_id mc
                          then m\<lparr>m_status := FREE, m_eta := None, m_lastCompletedAt := None\<rparr>
                          else m) (machines st);
          ws = map (\<lambda>w. if w_machineId w = m_id mc \<and>
                             (w_status w = WASH_AWAITING \<or> w_status w = WASH_RUNNING)
                          then w\<lparr>w_status := WASH_COLLECTED, w_endAt := Some now\<rparr>
                          else w) (washes st)
      in pushNotice now (''Thank you! '' @ m_label mc @ '' is free now.'') Success
           (st\<lparr>machines := ms, washes := ws\<rparr>))"

definition nudgeUser :: "int \<Rightarrow> machine \<Rightarrow> state \<Rightarrow> state" where
  "nudgeUser now mc st = pushNotice now (''A gentle nudge was sent for '' @ m_label mc @ ''.'') Info st"

text \<open>
  \<open>sendReminderEmail\<close>: a notice when the machine has an owner, the owner is the logged-in
  user and that user has a phone number or an e-mail address (an empty string is falsy).
\<close>

definition sendReminderEmail :: "int \<Rightarrow> machine \<Rightarrow> state \<Rightarrow> state" where
  "sendReminderEmail now mc st =
     (case m_ownerId mc of
        None \<Rightarrow> st
      | Some oid \<Rightarrow>
          (case user st of
             None \<Rightarrow> st
           | Some u \<Rightarrow>
               if u_id u \<noteq> oid then st
               else (let contact = (case u_phone u of
                                      None \<Rightarrow> u_email u
                                    | Some p \<Rightarrow> if p = [] then u_email u else p)
                     in if contact = [] then st
                        else pushNotice now
                               (''Reminder sent to '' @ contact @ '' to collect clothes from ''
                                  @ m_label mc @ ''.'') Info st)))"

text \<open>
  \<open>nudgeMachine\<close> and \<open>flagMachine\<close> mutate the machine object they are given. The object
  is the one held in \<open>state.machines\<close> (as on the path that opens the modal from
  \<open>state.machines.find\<close>), named here by its index \<open>i\<close> in the list; a reference always
  names an existing object, so \<open>i < length (machines st)\<close> for every call the program can
  make, and the model leaves the state alone otherwise.
\<close>

definition nudgeMachine :: "int \<Rightarrow> nat \<Rightarrow> state \<Rightarrow> state" where
  "nudgeMachine now i st =
     (if i < length (machines st) then
        (let mc = machines st ! i;
             c = (case m_nudgeCount mc of None \<Rightarrow> 0 | Some c \<Rightarrow> c) + 1;
             mc' = mc\<lparr>m_nudgeCount := Some c\<rparr>;
             st' = st\<lparr>machines := (machines st)[i := mc']\<rparr>
         in if c \<ge> 3 then
              sendReminderEmail now mc'
                (pushNotice now
                   (''Multiple nudges sent for '' @ m_label mc' @ ''. Please collect your clothes.'')
                   Warning st')
            else pushNotice now (''A nudge was sent for '' @ m_label mc' @ ''.'') Info st')
      else st)"

definition flagMachine :: "int \<Rightarrow> nat \<Rightarrow> state \<Rightarrow> state" where
  "flagMachine now i st =
     (if i < length (machines st) then
        (let mc = machines st ! i;
             c = (case m_flagCount mc of None \<Rightarrow> 0 | Some c \<Rightarrow> c) + 1
         in if c \<ge> 2 then
              pushNotice now
                (m_label mc @ '' flagged as still occupied. Please collect your clothes.'') Report
                (st\<lparr>machines := (machines st)
                   [i := mc\<lparr>m_flagCount := Some 0, m_nudgeCount := Some 0,
                            m_status := AWAITING, m_lastCompletedAt := Some now\<rparr>]\<rparr>)
            else
              pushNotice now
                (''Flag recorded for '' @ m_label mc @ ''. One more flag will apply a penalty.'') Info
                (st\<lparr>machines := (machines st)[i := mc\<lparr>m_flagCount := Some c\<rparr>]\<rparr>))
      else st)"

definition submitReport ::
    "int \<Rightarrow> string \<Rightarrow> string \<Rightarrow> string \<Rightarrow> string option \<Rightarrow> bool \<Rightarrow> state \<Rightarrow> state" where
  "submitReport now machineId reason notes photoDataUrl affectStatus st =
     (let entry = \<lparr>r_id = now, r_machineId = machineId, r_reason = reason, r_notes = notes,
                    r_photoDataUrl = photoDataUrl, r_createdAt = now\<rparr>;
          st1 = pushNotice now (''Report submitted for '' @ machineId @ ''.'') Report
                  (st\<lparr>reports := entry # reports st\<rparr>)
      in if affectStatus
         then st1\<lparr>machines := map (\<lambda>m. if m_id m = machineId
                                          then m\<lparr>m_status := MAINT, m_eta := None\<rparr>
                                          else m) (machines st1)\<rparr>
         else st1)"

subsection \<open>The minute tick\<close>

text \<open>
  The snapshot of FREE machines per hostel and floor, built by \<open>forEach\<close> into an object of
  objects: a missing hostel gets an empty object, a missing (or zero) count is set to 0,
  and a FREE machine adds one.
\<close>

type_synonym snapshot = "string \<Rightarrow> (int \<Rightarrow> nat option) option"

definition snapStep :: "machine \<Rightarrow> snapshot \<Rightarrow> snapshot" where
  "snapStep m snap =
     (let row = (case snap (m_hostel m) of None \<Rightarrow> Map.empty | Some r \<Rightarrow> r);
          c = (case row (m_floor m) of None \<Rightarrow> 0 | Some c \<Rightarrow> c);
          c' = (if m_status m = FREE then c + 1 else c)
      in snap(m_hostel m \<mapsto> row(m_floor m \<mapsto> c')))"

definition freeSnapshot :: "machine list \<Rightarrow> snapshot" where
  "freeSnapshot ms = fold snapStep ms Map.empty"

text \<open>\<open>snap[hostel]?.[floor] ?? 0\<close>\<close>

definition freeAt :: "snapshot \<Rightarrow> string \<Rightarrow> int \<Rightarrow> nat" where
  "freeAt snap h f =
     (case snap h of None \<Rightarrow> 0
      | Some row \<Rightarrow> (case row f of None \<Rightarrow> 0 | Some c \<Rightarrow> c))"

text \<open>
  The callback of the countdown \<open>map\<close>, for one machine: it returns the new machine and,
  through \<open>pushNotice\<close> and the assignment to \<open>state.washes\<close>, changes the state.
\<close>

definition tickMachine :: "int \<Rightarrow> machine \<Rightarrow> state \<Rightarrow> machine \<times> state" where
  "tickMachine now m st =
     (if m_status m = RUNNING then
        (case m_eta m of
           None \<Rightarrow> (m, st)
         | Some e0 \<Rightarrow>
            (let eta = e0 - 1;
                 st1 = (if eta = 3
                        then pushNotice now (m_label m @ '' finishing in ~3 minutes.'') Info st
                        else st)
             in if eta \<le> 0 then
                  (let st2 = pushNotice now (m_label m @ '' finished. Please collect clothes.'')
                               Success st1;
                       st3 = st2\<lparr>washes :=
                               map (\<lambda>w. if w_machineId w = m_id m \<and> w_status w = WASH_RUNNING
                                         then w\<lparr>w_status := WASH_AWAITING, w_endAt := Some now\<rparr>
                                         else w) (washes st2)\<rparr>
                   in (m\<lparr>m_status := AWAITING, m_eta := None, m_lastCompletedAt := Some now\<rparr>,
                       st3))
                else (m\<lparr>m_eta := Some eta\<rparr>, st1)))
      else (m, st))"

text \<open>The \<open>map\<close> itself, left to right; \<open>state.machines\<close> is assigned when it is done.\<close>

fun countdown :: "int \<Rightarrow> machine list \<Rightarrow> state \<Rightarrow> machine list \<times> state" where
  "countdown now [] st = ([], st)"
| "countdown now (m # ms) st =
     (case tickMachine now m st of
        (m', st1) \<Rightarrow> (case countdown now ms st1 of (ms', st2) \<Rightarrow> (m' # ms', st2)))"

definition applyCountdown :: "int \<Rightarrow> state \<Rightarrow> state" where
  "applyCountdown now st =
     (case countdown now (machines st) st of (ms', st1) \<Rightarrow> st1\<lparr>machines := ms'\<rparr>)"

text \<open>Decimal rendering of a number inside a template string.\<close>

fun show_nat :: "nat \<Rightarrow> string" where
  "show_nat n = (if n < 10 then [char_of (48 + n)]
                 else show_nat (n div 10) @ [char_of (48 + n mod 10)])"

declare show_nat.simps [simp del]

definition show_int :: "int \<Rightarrow> string" where
  "show_int i = (if i < 0 then ''-'' @ show_nat (nat (- i)) else show_nat (nat i))"

definition freeTitle :: "int \<Rightarrow> string" where
  "freeTitle fl = ''A machine is now free on Floor '' @ show_int fl @ ''.''"

text \<open>
  The watch-free check: the body of the inner \<open>forEach\<close> for one (hostel, floor) entry, the
  inner loop over the floors of one hostel, and the outer loop over the hostels. Each
  returns the entries as they are after the loop, with the state the notices went to.
\<close>

definition watchFloor ::
    "int \<Rightarrow> snapshot \<Rightarrow> snapshot \<Rightarrow> string \<Rightarrow> int \<times> bool \<Rightarrow> state \<Rightarrow> (int \<times> bool) \<times> state" where
  "watchFloor now freeBefore freeAfter hostel e st =
     (case e of (floor, flag) \<Rightarrow>
        if flag then
          (let before = freeAt freeBefore hostel floor;
               after = freeAt freeAfter hostel floor
           in if before = 0 \<and> after > 0
              then ((floor, False),
                    pushNotice now (freeTitle floor) Success st)
              else ((floor, flag), st))
        else ((floor, flag), st))"

fun watchFloors ::
    "int \<Rightarrow> snapshot \<Rightarrow> snapshot \<Rightarrow> string \<Rightarrow> (int \<times> bool) list \<Rightarrow> state
       \<Rightarrow> (int \<times> bool) list \<times> state" where
  "watchFloors now fb fa hostel [] st = ([], st)"
| "watchFloors now fb fa hostel (e # es) st =
     (case watchFloor now fb fa hostel e st of
        (e', st1) \<Rightarrow> (case watchFloors now fb fa hostel es st1 of
                        (es', st2) \<Rightarrow> (e' # es', st2)))"

fun watchHostels ::
    "int \<Rightarrow> snapshot \<Rightarrow> snapshot \<Rightarrow> (string \<times> (int \<times> bool) list) list \<Rightarrow> state
       \<Rightarrow> (string \<times> (int \<times> bool) list) list \<times> state" where
  "watchHostels now fb fa [] st = ([], st)"
| "watchHostels now fb fa ((hostel, fs) # hs) st =
     (case watchFloors now fb fa hostel fs st of
        (fs', st1) \<Rightarrow> (case watchHostels now fb fa hs st1 of
                        (hs', st2) \<Rightarrow> ((hostel, fs') # hs', st2)))"

definition checkWatchFree :: "int \<Rightarrow> snapshot \<Rightarrow> snapshot \<Rightarrow> state \<Rightarrow> state" where
  "checkWatchFree now fb fa st =
     (case watchHostels now fb fa (watchFree st) st of (wf', st1) \<Rightarrow> st1\<lparr>watchFree := wf'\<rparr>)"

text \<open>One firing of the interval callback of \<open>startTick\<close>.\<close>

definition tick :: "int \<Rightarrow> state \<Rightarrow> state" where
  "tick now st =
     (let freeBefore = freeSnapshot (machines st);
          st1 = applyCountdown now st;
          freeAfter = freeSnapshot (machines st1)
      in checkWatchFree now freeBefore freeAfter st1)"

subsection \<open>The status invariant of the data model\<close>

text \<open>\<open>eta\<close> is set iff the machine is RUNNING, \<open>lastCompletedAt\<close> iff it is AWAITING.\<close>

definition machineInv :: "machine \<Rightarrow> bool" where
  "machineInv m \<longleftrightarrow>
     (m_status m = RUNNING \<longleftrightarrow> m_eta m \<noteq> None) \<and>
     (m_status m = AWAITING \<longleftrightarrow> m_lastCompletedAt m \<noteq> None)"

definition registryInv :: "state \<Rightarrow> bool" where
  "registryInv st \<longleftrightarrow> (\<forall>m \<in> set (machines st). machineInv m)"

subsection \<open>Example states\<close>

definition exBooking :: booking where
  "exBooking = \<lparr>b_id = 1, b_roomId = ''CR-1'', b_roomLabel = ''Common Room 1'', b_hasAC = True,
                 b_startAt = 0, b_endAt = 3600000, b_reason = ''study'', b_status = APPROVED,
                 b_createdAt = 0, b_updatedAt = 0\<rparr>"

definition exRoom :: room where
  "exRoom = \<lparr>rm_id = ''CR-1'', rm_label = ''Common Room 1'', rm_hasAC = True\<rparr>"

definition emptyState :: state where
  "emptyState = \<lparr>machines = [], washes = [], notices = [], reports = [], watchFree = [],
                  user = None, rooms = [], bookings = []\<rparr>"

definition exLedger :: state where
  "exLedger = emptyState\<lparr>rooms := [exRoom], bookings := [exBooking]\<rparr>"

definition exAwaiting :: machine where
  "exAwaiting = \<lparr>m_id = ''LVH-3-1'', m_label = ''M-3A'', m_hostel = ''LVH'', m_floor = 3,
                  m_status = AWAITING, m_eta = None, m_lastCompletedAt = Some 100,
                  m_nudgeCount = None, m_flagCount = None, m_ownerId = None\<rparr>"

definition exRunning4 :: machine where
  "exRunning4 = \<lparr>m_id = ''LVH-3-2'', m_label = ''M-3B'', m_hostel = ''LVH'', m_floor = 3,
                  m_status = RUNNING, m_eta = Some 4, m_lastCompletedAt = None,
                  m_nudgeCount = None, m_flagCount = None, m_ownerId = None\<rparr>"

definition exRunning1 :: machine where
  "exRunning1 = \<lparr>m_id = ''LVH-3-3'', m_label = ''M-3C'', m_hostel = ''LVH'', m_floor = 3,
                  m_status = RUNNING, m_eta = Some 1, m_lastCompletedAt = None,
                  m_nudgeCount = Some 0, m_flagCount = Some 0, m_ownerId = None\<rparr>"

definition exFree :: machine where
  "exFree = \<lparr>m_id = ''LVH-2-1'', m_label = ''M-2A'', m_hostel = ''LVH'', m_floor = 2,
              m_status = FREE, m_eta = None, m_lastCompletedAt = None,
              m_nudgeCount = None, m_flagCount = None, m_ownerId = None\<rparr>"

definition exWash :: wash where
  "exWash = \<lparr>w_id = 50, w_machineId = ''LVH-3-3'', w_machineLabel = ''M-3C'', w_hostel = ''LVH'',
              w_floor = 3, w_startAt = 50, w_endAt = None, w_status = WASH_RUNNING\<rparr>"

definition exNotice :: "nat \<Rightarrow> notice" where
  "exNotice i = \<lparr>n_id = int i, n_title = ''Logged out'', n_time = int i, n_kind = Info\<rparr>"

definition exFull :: state where
  "exFull = emptyState\<lparr>notices := map exNotice (rev [0..<50])\<rparr>"

definition exLaundry :: state where
  "exLaundry = emptyState\<lparr>machines := [exAwaiting, exRunning4, exRunning1, exFree],
                          washes := [exWash],
                          watchFree := [(''LVH'', [(2, False), (3, True)])]\<rparr>"

section \<open>The notification sink\<close>

text \<open>The equations that unfold the example registry.\<close>

lemmas ex_defs = exLaundry_def emptyState_def exAwaiting_def exRunning4_def exRunning1_def
  exFree_def exWash_def

text \<open>\<open>pushNotice\<close> touches the notice list only, and what it leaves there.\<close>

lemma pushNotice_fields [simp]:
  "machines (pushNotice now t k st) = machines st"
  "washes (pushNotice now t k st) = washes st"
  "reports (pushNotice now t k st) = reports st"
  "watchFree (pushNotice now t k st) = watchFree st"
  "user (pushNotice now t k st) = user st"
  "rooms (pushNotice now t k st) = rooms st"
  "bookings (pushNotice now t k st) = bookings st"
  by (simp_all add: pushNotice_def Let_def)

lemma pushNotice_notices:
  "notices (pushNotice now t k st) =
     (if length (notices st) \<ge> 50
      then \<lparr>n_id = now, n_title = t, n_time = now, n_kind = k\<rparr> # butlast (notices st)
      else \<lparr>n_id = now, n_title = t, n_time = now, n_kind = k\<rparr> # notices st)"
  by (cases "notices st") (auto simp: pushNotice_def Let_def)

lemma pushNotice_bounded:
  "length (notices st) \<le> 50 \<Longrightarrow> length (notices (pushNotice now t k st)) \<le> 50"
  by (simp add: pushNotice_notices)

lemma pushNotice_update_commute:
  "pushNotice now t k (st\<lparr>machines := ms\<rparr>) = (pushNotice now t k st)\<lparr>machines := ms\<rparr>"
  "pushNotice now t k (st\<lparr>washes := ws\<rparr>) = (pushNotice now t k st)\<lparr>washes := ws\<rparr>"
  by (simp_all add: pushNotice_def Let_def)

lemma fold_pushNotice_fields [simp]:
  "machines (fold (\<lambda>f. pushNotice now (t f) k) fs st) = machines st"
  "washes (fold (\<lambda>f. pushNotice now (t f) k) fs st) = washes st"
  "watchFree (fold (\<lambda>f. pushNotice now (t f) k) fs st) = watchFree st"
  by (induction fs arbitrary: st) simp_all

lemma fold_pushNotice_bounded:
  "length (notices st) \<le> 50 \<Longrightarrow>
   length (notices (fold (\<lambda>f. pushNotice now (t f) k) fs st)) \<le> 50"
  by (induction fs arbitrary: st) (simp_all add: pushNotice_bounded)


section \<open>Booking ledger: conflicts and the duration limit\<close>

lemma findIndex_Some: "findIndex P xs = Some i \<Longrightarrow> i < length xs \<and> P (xs ! i)"
proof (induction xs arbitrary: i)
  case Nil
  then show ?case by simp
next
  case (Cons x xs)
  then show ?case by (cases "P x") auto
qed

text \<open>
  C4. \<open>checkConflict(roomId, startAt, endAt)\<close> is true exactly when some stored booking has
  the same room, a status other than CANCELLED and REJECTED, and overlaps the requested
  range: \<open>startAt < existing.endAt\<close> and \<open>endAt > existing.startAt\<close>. In particular, when
  every stored booking is on another room, or CANCELLED or REJECTED, or only touches the
  range (\<open>endAt = existing.startAt\<close> or \<open>startAt = existing.endAt\<close>), there is no conflict.
\<close>

theorem checkConflict_iff:
  "(checkConflict st roomId startAt endAt \<longleftrightarrow>
      (\<exists>b \<in> set (bookings st). b_roomId b = roomId \<and> b_status b \<noteq> CANCELLED \<and>
          b_status b \<noteq> REJECTED \<and> startAt < b_endAt b \<and> endAt > b_startAt b))
   \<and> ((\<forall>b \<in> set (bookings st). b_roomId b \<noteq> roomId \<or> b_status b = CANCELLED \<or>
          b_status b = REJECTED \<or> endAt = b_startAt b \<or> startAt = b_endAt b)
        \<longrightarrow> \<not> checkConflict st roomId startAt endAt)"
  by (auto simp: checkConflict_def list_ex_iff conflicts_def)

text \<open>
  On the ledger holding one APPROVED booking of CR-1 over [0, 3600000): an overlapping
  range conflicts, a range that starts where the booking ends does not, and the same
  overlapping range on CR-2 does not.
\<close>

theorem checkConflict_iff_witness:
  "checkConflict exLedger ''CR-1'' 1800000 5400000
   \<and> \<not> checkConflict exLedger ''CR-1'' 3600000 7200000
   \<and> \<not> checkConflict exLedger ''CR-2'' 1800000 5400000"
  using checkConflict_iff [of exLedger "''CR-1''" 1800000 5400000]
        checkConflict_iff [of exLedger "''CR-1''" 3600000 7200000]
        checkConflict_iff [of exLedger "''CR-2''" 1800000 5400000]
  by (simp add: exLedger_def exBooking_def emptyState_def)

text \<open>
  The scan of \<open>extendBooking\<close> meets the booking being extended: an APPROVED booking of
  positive length overlaps any range that starts at its own start and ends later, so no
  such extension is ever stored.
\<close>

lemma extendBooking_always_refused:
  assumes "findIndex (\<lambda>b. b_id b = bid) (bookings st) = Some idx"
    and "b_status (bookings st ! idx) = APPROVED"
    and "b_startAt (bookings st ! idx) < b_endAt (bookings st ! idx)"
    and "b_startAt (bookings st ! idx) < newEndAt"
  shows "\<exists>msg. extendBooking now bid newEndAt st = Inl msg"
proof -
  let ?bk = "bookings st ! idx"
  have "idx < length (bookings st)"
    using assms(1) by (simp add: findIndex_Some)
  then have "?bk \<in> set (bookings st)" by simp
  moreover have "conflicts (b_roomId ?bk) (b_startAt ?bk) newEndAt ?bk"
    using assms(2-4) by (simp add: conflicts_def)
  ultimately have "checkConflict st (b_roomId ?bk) (b_startAt ?bk) newEndAt"
    unfolding checkConflict_def list_ex_iff by blast
  then show ?thesis
    using assms(1,2) by (simp add: extendBooking_def Let_def)
qed

text \<open>
  C2. The claim: \<open>extendBooking\<close> leaves the booking it extends out of the conflict scan, so
  that it fails only for a duration over 24h or an overlap with another booking. The code
  scans all of \<open>state.bookings\<close>, the extended booking included. On the ledger whose only
  booking is the APPROVED booking 1 of CR-1 over [0, 3600000), extending it to 7200000
  (two hours from its start, no other booking anywhere) is refused with the overlap alert.
\<close>

theorem extendBooking_self_conflict:
  "7200000 - b_startAt exBooking \<le> dayMs
   \<and> bookings exLedger = [exBooking]
   \<and> extendBooking 5000 1 7200000 exLedger
       = Inl ''Requested extension overlaps with another booking.''"
  by (simp add: extendBooking_def exLedger_def exBooking_def emptyState_def dayMs_def
        checkConflict_def conflicts_def)

text \<open>
  C3, as stated: \<open>submitBooking\<close>, \<open>modifyBooking\<close> and \<open>extendBooking\<close> all reject a range
  longer than 24h and leave the bookings unchanged. \<open>submitBooking\<close> does not: a request of
  24h and one millisecond is stored.
\<close>

theorem submitBooking_no_duration_check:
  "(dayMs + 1) - 0 > dayMs
   \<and> bookings (submitBooking 7 exRoom 0 (dayMs + 1) ''party'' exLedger) \<noteq> bookings exLedger"
  by (simp add: submitBooking_def pushNotice_def Let_def)

text \<open>
  C3, amended. For a booking that \<open>findIndex\<close> finds: \<open>extendBooking\<close> on an APPROVED booking
  with \<open>newEndAt - startAt > 24h\<close>, and \<open>modifyBooking\<close> on a PENDING or APPROVED booking with
  \<open>newEndAt - newStartAt > 24h\<close>, return their duration alert, the state untouched; at
  exactly 24h neither raises its duration alert. \<open>submitBooking\<close> checks nothing: whatever
  the range, it puts a PENDING booking with that range at the head of the list.
\<close>

theorem booking_duration_limit:
  assumes "findIndex (\<lambda>b. b_id b = bid) (bookings st) = Some idx"
  shows "(b_status (bookings st ! idx) = APPROVED \<and> newEndAt - b_startAt (bookings st ! idx) > dayMs
            \<longrightarrow> extendBooking now bid newEndAt st = Inl ''Extension exceeds 24 hours from start time.'')
       \<and> ((b_status (bookings st ! idx) = PENDING \<or> b_status (bookings st ! idx) = APPROVED)
             \<and> e - s > dayMs
            \<longrightarrow> modifyBooking now bid s e r st = Inl ''Bookings cannot exceed 24 hours.'')
       \<and> (newEndAt - b_startAt (bookings st ! idx) = dayMs
            \<longrightarrow> extendBooking now bid newEndAt st \<noteq> Inl ''Extension exceeds 24 hours from start time.'')
       \<and> (e - s = dayMs
            \<longrightarrow> modifyBooking now bid s e r st \<noteq> Inl ''Bookings cannot exceed 24 hours.''
              \<and> modifyBooking now bid s e r st \<noteq> Inl ''End time must be after start time.'')
       \<and> bookings (submitBooking now rm s e reason st)
           = \<lparr>b_id = now, b_roomId = rm_id rm, b_roomLabel = rm_label rm,
                 b_hasAC = rm_hasAC rm, b_startAt = s, b_endAt = e,
                 b_reason = reason, b_status = PENDING, b_createdAt = now,
                 b_updatedAt = now\<rparr> # bookings st"
  using assms
  by (simp add: extendBooking_def modifyBooking_def submitBooking_def pushNotice_def Let_def
        dayMs_def)

theorem booking_duration_limit_witness:
  "findIndex (\<lambda>b. b_id b = 1) (bookings exLedger) = Some 0
   \<and> extendBooking 9 1 (dayMs + 1) exLedger = Inl ''Extension exceeds 24 hours from start time.''
   \<and> modifyBooking 9 1 5 (dayMs + 6) None exLedger = Inl ''Bookings cannot exceed 24 hours.''
   \<and> extendBooking 9 1 dayMs exLedger \<noteq> Inl ''Extension exceeds 24 hours from start time.''
   \<and> modifyBooking 9 1 5 (dayMs + 5) None exLedger \<noteq> Inl ''Bookings cannot exceed 24 hours.''"
proof -
  have h: "findIndex (\<lambda>b. b_id b = 1) (bookings exLedger) = Some 0"
    by (simp add: exLedger_def exBooking_def)
  have st: "b_status (bookings exLedger ! 0) = APPROVED" "b_startAt (bookings exLedger ! 0) = 0"
    by (simp_all add: exLedger_def exBooking_def)
  show ?thesis
    using h st
      booking_duration_limit [OF h, where newEndAt = "dayMs + 1" and e = "dayMs + 6"
        and s = 5 and now = 9 and r = None]
      booking_duration_limit [OF h, where newEndAt = "dayMs" and e = "dayMs + 5"
        and s = 5 and now = 9 and r = None]
    by simp
qed

section \<open>The tick: countdown, snapshots and the watch-free check\<close>

lemma tickMachine_fst_indep:
  "fst (tickMachine now m st) = fst (tickMachine now m st')"
  by (simp add: tickMachine_def Let_def split: option.splits)

lemma tickMachine_snd_fields [simp]:
  "machines (snd (tickMachine now m st)) = machines st"
  "watchFree (snd (tickMachine now m st)) = watchFree st"
  by (simp_all add: tickMachine_def Let_def split: option.splits)

lemma tickMachine_bounded:
  "length (notices st) \<le> 50 \<Longrightarrow> length (notices (snd (tickMachine now m st))) \<le> 50"
  by (simp add: tickMachine_def Let_def pushNotice_bounded split: option.splits)

lemma countdown_fst:
  "fst (countdown now ms st) = map (\<lambda>m. fst (tickMachine now m st')) ms"
proof (induction ms arbitrary: st)
  case Nil
  then show ?case by simp
next
  case (Cons m ms)
  obtain m' st1 where t: "tickMachine now m st = (m', st1)" by (cases "tickMachine now m st")
  obtain ms' st2 where c: "countdown now ms st1 = (ms', st2)" by (cases "countdown now ms st1")
  have "m' = fst (tickMachine now m st')"
    using t tickMachine_fst_indep [of now m st st'] by simp
  moreover have "ms' = map (\<lambda>m. fst (tickMachine now m st')) ms"
    using Cons.IH [of st1] c by simp
  ultimately show ?case using t c by simp
qed

lemma countdown_snd_fields:
  "watchFree (snd (countdown now ms st)) = watchFree st"
proof (induction ms arbitrary: st)
  case Nil
  then show ?case by simp
next
  case (Cons m ms)
  obtain m' st1 where t: "tickMachine now m st = (m', st1)" by (cases "tickMachine now m st")
  obtain ms' st2 where c: "countdown now ms st1 = (ms', st2)" by (cases "countdown now ms st1")
  have "watchFree st1 = watchFree st"
    using t tickMachine_snd_fields(2) [of now m st] by simp
  then show ?case using Cons.IH [of st1] t c by simp
qed

lemma countdown_bounded:
  "length (notices st) \<le> 50 \<Longrightarrow> length (notices (snd (countdown now ms st))) \<le> 50"
proof (induction ms arbitrary: st)
  case Nil
  then show ?case by simp
next
  case (Cons m ms)
  obtain m' st1 where t: "tickMachine now m st = (m', st1)" by (cases "tickMachine now m st")
  obtain ms' st2 where c: "countdown now ms st1 = (ms', st2)" by (cases "countdown now ms st1")
  have "length (notices st1) \<le> 50"
    using t tickMachine_bounded [OF Cons.prems, of now m] by simp
  then show ?case using Cons.IH [of st1] t c by simp
qed

lemma applyCountdown_machines:
  "machines (applyCountdown now st) = map (\<lambda>m. fst (tickMachine now m st)) (machines st)"
  using countdown_fst [of now "machines st" st st]
  by (simp add: applyCountdown_def case_prod_beta)

lemma applyCountdown_watchFree:
  "watchFree (applyCountdown now st) = watchFree st"
  using countdown_snd_fields [of now "machines st" st]
  by (simp add: applyCountdown_def case_prod_beta)

lemma applyCountdown_bounded:
  "length (notices st) \<le> 50 \<Longrightarrow> length (notices (applyCountdown now st)) \<le> 50"
  using countdown_bounded [of st now "machines st"]
  by (simp add: applyCountdown_def case_prod_beta)

lemma tickMachine_place [simp]:
  "m_hostel (fst (tickMachine now m st)) = m_hostel m"
  "m_floor (fst (tickMachine now m st)) = m_floor m"
  "m_status (fst (tickMachine now m st)) = FREE \<longleftrightarrow> m_status m = FREE"
  by (auto simp: tickMachine_def Let_def split: option.splits)

text \<open>What a snapshot holds: the number of FREE machines of the hostel and floor.\<close>

lemma freeAt_snapStep:
  "freeAt (snapStep m snap) h f =
     freeAt snap h f + (if m_hostel m = h \<and> m_floor m = f \<and> m_status m = FREE then 1 else 0)"
  by (auto simp: freeAt_def snapStep_def Let_def split: option.splits)

lemma freeAt_fold:
  "freeAt (fold snapStep ms snap) h f =
     freeAt snap h f + length (filter (\<lambda>m. m_hostel m = h \<and> m_floor m = f \<and> m_status m = FREE) ms)"
  by (induction ms arbitrary: snap) (simp_all add: freeAt_snapStep)

lemma freeAt_freeSnapshot:
  "freeAt (freeSnapshot ms) h f =
     length (filter (\<lambda>m. m_hostel m = h \<and> m_floor m = f \<and> m_status m = FREE) ms)"
  by (simp add: freeSnapshot_def freeAt_fold) (simp add: freeAt_def)

lemma free_count_countdown:
  "freeAt (freeSnapshot (machines (applyCountdown now st))) h f
     = freeAt (freeSnapshot (machines st)) h f"
  by (simp add: freeAt_freeSnapshot applyCountdown_machines filter_map comp_def)

text \<open>With equal counts before and after, the watch-free check changes nothing.\<close>

lemma watchFloor_same:
  "freeAt fb h (fst e) = freeAt fa h (fst e) \<Longrightarrow> watchFloor now fb fa h e st = (e, st)"
  by (cases e) (auto simp: watchFloor_def Let_def)

lemma watchFloors_same:
  "\<forall>f. freeAt fb h f = freeAt fa h f \<Longrightarrow> watchFloors now fb fa h es st = (es, st)"
  by (induction es arbitrary: st) (simp_all add: watchFloor_same)

lemma watchHostels_same:
  "\<forall>h f. freeAt fb h f = freeAt fa h f \<Longrightarrow> watchHostels now fb fa hs st = (hs, st)"
  by (induction hs arbitrary: st) (auto simp: watchFloors_same)

lemma checkWatchFree_same:
  "\<forall>h f. freeAt fb h f = freeAt fa h f \<Longrightarrow> checkWatchFree now fb fa st = st"
  by (simp add: checkWatchFree_def watchHostels_same)

lemma tick_applyCountdown: "tick now st = applyCountdown now st"
  by (simp add: tick_def Let_def checkWatchFree_same free_count_countdown)

text \<open>The flags and the notices the watch-free loops leave, for any two snapshots.\<close>

lemma watchFloors_flags:
  "fst (watchFloors now fb fa h es st) =
     map (\<lambda>(f, flag). (f, flag \<and> \<not> (freeAt fb h f = 0 \<and> 0 < freeAt fa h f))) es"
  by (induction es arbitrary: st)
     (auto simp: watchFloor_def Let_def case_prod_beta)

lemma watchFloors_state:
  "snd (watchFloors now fb fa h es st) =
     fold (\<lambda>f. pushNotice now (freeTitle f) Success)
       (map fst (filter (\<lambda>(f, flag). flag \<and> freeAt fb h f = 0 \<and> 0 < freeAt fa h f) es)) st"
  by (induction es arbitrary: st)
     (auto simp: watchFloor_def Let_def case_prod_beta)

lemma watchHostels_Cons:
  "fst (watchHostels now fb fa ((h, fs) # hs) st) =
     (h, fst (watchFloors now fb fa h fs st))
       # fst (watchHostels now fb fa hs (snd (watchFloors now fb fa h fs st)))"
  "snd (watchHostels now fb fa ((h, fs) # hs) st) =
     snd (watchHostels now fb fa hs (snd (watchFloors now fb fa h fs st)))"
  by (simp_all split: prod.splits)

lemma watchHostels_flags:
  "fst (watchHostels now fb fa hs st) =
     map (\<lambda>(h, fs). (h, map (\<lambda>(f, flag).
            (f, flag \<and> \<not> (freeAt fb h f = 0 \<and> 0 < freeAt fa h f))) fs)) hs"
proof (induction hs arbitrary: st)
  case Nil
  then show ?case by simp
next
  case (Cons a hs)
  obtain h fs where a: "a = (h, fs)" by (cases a)
  show ?case
    unfolding a watchHostels_Cons Cons.IH watchFloors_flags by simp
qed

lemma watchHostels_state:
  "snd (watchHostels now fb fa hs st) =
     fold (\<lambda>f. pushNotice now (freeTitle f) Success)
       (concat (map (\<lambda>(h, fs). map fst
           (filter (\<lambda>(f, flag). flag \<and> freeAt fb h f = 0 \<and> 0 < freeAt fa h f) fs)) hs)) st"
proof (induction hs arbitrary: st)
  case Nil
  then show ?case by simp
next
  case (Cons a hs)
  obtain h fs where a: "a = (h, fs)" by (cases a)
  show ?case
    unfolding a watchHostels_Cons Cons.IH watchFloors_state by simp
qed

lemma checkWatchFree_bounded:
  "length (notices st) \<le> 50 \<Longrightarrow> length (notices (checkWatchFree now fb fa st)) \<le> 50"
  by (simp add: checkWatchFree_def case_prod_beta watchHostels_state fold_pushNotice_bounded)

lemma tick_bounded:
  "length (notices st) \<le> 50 \<Longrightarrow> length (notices (tick now st)) \<le> 50"
  by (simp add: tick_def Let_def checkWatchFree_bounded applyCountdown_bounded)



text \<open>
  C10. The countdown only moves RUNNING machines to AWAITING: a machine is FREE after it
  exactly when it was FREE before, so for every hostel and floor the count of FREE
  machines the tick snapshots after the countdown equals the count it snapshotted before.
  The condition \<open>before = 0\<close> and \<open>after > 0\<close> of the watch-free check therefore never
  holds inside a tick: the tick is the countdown alone, and it leaves every watch-free
  flag as it found it.
\<close>

theorem tick_never_frees:
  "tick now st = applyCountdown now st
   \<and> (\<forall>h f. freeAt (freeSnapshot (machines (applyCountdown now st))) h f
              = freeAt (freeSnapshot (machines st)) h f)
   \<and> watchFree (tick now st) = watchFree st
   \<and> length (machines (tick now st)) = length (machines st)
   \<and> (\<forall>i < length (machines st).
        (m_status (machines (tick now st) ! i) = FREE \<longleftrightarrow> m_status (machines st ! i) = FREE)
        \<and> (m_status (machines (tick now st) ! i) \<noteq> m_status (machines st ! i)
             \<longrightarrow> m_status (machines st ! i) = RUNNING
               \<and> m_status (machines (tick now st) ! i) = AWAITING))"
proof -
  have st: "m_status (fst (tickMachine now m st)) \<noteq> m_status m
      \<Longrightarrow> m_status m = RUNNING \<and> m_status (fst (tickMachine now m st)) = AWAITING" for m
    by (auto simp: tickMachine_def Let_def split: option.splits if_splits)
  have cnt: "\<forall>h f. freeAt (freeSnapshot (machines (applyCountdown now st))) h f
              = freeAt (freeSnapshot (machines st)) h f"
    by (simp add: free_count_countdown)
  have ms: "\<forall>i < length (machines st).
        (m_status (machines (tick now st) ! i) = FREE \<longleftrightarrow> m_status (machines st ! i) = FREE)
        \<and> (m_status (machines (tick now st) ! i) \<noteq> m_status (machines st ! i)
             \<longrightarrow> m_status (machines st ! i) = RUNNING
               \<and> m_status (machines (tick now st) ! i) = AWAITING)"
    using st by (simp add: tick_applyCountdown applyCountdown_machines)
  show ?thesis
    using cnt ms
    by (simp add: tick_applyCountdown applyCountdown_watchFree applyCountdown_machines)
qed

theorem tick_never_frees_witness:
  "watchFree exLaundry = [(''LVH'', [(2, False), (3, True)])]
   \<and> freeAt (freeSnapshot (machines exLaundry)) ''LVH'' 3 = 0
   \<and> watchFree (tick 200 exLaundry) = [(''LVH'', [(2, False), (3, True)])]
   \<and> map m_status (machines (tick 200 exLaundry)) = [AWAITING, RUNNING, AWAITING, FREE]
   \<and> freeAt (freeSnapshot (machines (tick 200 exLaundry))) ''LVH'' 3 = 0"
proof -
  have a: "watchFree exLaundry = [(''LVH'', [(2, False), (3, True)])]"
    by (simp add: ex_defs)
  have b: "freeAt (freeSnapshot (machines exLaundry)) ''LVH'' 3 = 0"
    by (simp add: freeAt_freeSnapshot ex_defs)
  have c: "map m_status (machines (applyCountdown 200 exLaundry)) = [AWAITING, RUNNING, AWAITING, FREE]"
    by (simp add: applyCountdown_def tickMachine_def Let_def ex_defs)
  note T = tick_never_frees [of 200 exLaundry]
  have e: "tick 200 exLaundry = applyCountdown 200 exLaundry"
    using T by blast
  have w: "watchFree (tick 200 exLaundry) = watchFree exLaundry"
    using T by blast
  have f: "freeAt (freeSnapshot (machines (tick 200 exLaundry))) ''LVH'' 3
             = freeAt (freeSnapshot (machines exLaundry)) ''LVH'' 3"
    using T e by simp
  show ?thesis
    using a b c e w f by simp
qed

text \<open>
  C8. The watch-free check at the end of a tick runs on the snapshot taken before the
  countdown and the one taken after it, each holding the number of FREE machines per
  hostel and floor. For every entry of \<open>state.watchFree\<close>, in key order: when the flag is
  true and the count was 0 before and is above 0 after, the flag becomes false and the
  success notice for that floor is pushed; in every other case (the flag false, the count
  still 0, or the count above 0 before already) the flag stays as it is and nothing is
  pushed for the entry. Machines and wash records are not touched.
\<close>

theorem watchFree_check:
  "tick now st = checkWatchFree now (freeSnapshot (machines st))
                   (freeSnapshot (machines (applyCountdown now st))) (applyCountdown now st)
   \<and> freeAt (freeSnapshot ms) h' f' =
       length (filter (\<lambda>m. m_hostel m = h' \<and> m_floor m = f' \<and> m_status m = FREE) ms)
   \<and> watchFree (checkWatchFree now fb fa st) =
       map (\<lambda>(h, fs). (h, map (\<lambda>(f, flag).
              (f, flag \<and> \<not> (freeAt fb h f = 0 \<and> 0 < freeAt fa h f))) fs)) (watchFree st)
   \<and> notices (checkWatchFree now fb fa st) =
       notices (fold (\<lambda>f. pushNotice now (freeTitle f) Success)
                  (concat (map (\<lambda>(h, fs). map fst
                     (filter (\<lambda>(f, flag). flag \<and> freeAt fb h f = 0 \<and> 0 < freeAt fa h f) fs))
                     (watchFree st))) st)
   \<and> machines (checkWatchFree now fb fa st) = machines st
   \<and> washes (checkWatchFree now fb fa st) = washes st"
proof -
  have a: "tick now st = checkWatchFree now (freeSnapshot (machines st))
                   (freeSnapshot (machines (applyCountdown now st))) (applyCountdown now st)"
    by (simp add: tick_def Let_def)
  have b: "watchFree (checkWatchFree now fb fa st) =
       map (\<lambda>(h, fs). (h, map (\<lambda>(f, flag).
              (f, flag \<and> \<not> (freeAt fb h f = 0 \<and> 0 < freeAt fa h f))) fs)) (watchFree st)"
    using watchHostels_flags [of now fb fa "watchFree st" st]
    by (simp add: checkWatchFree_def case_prod_beta)
  have c: "checkWatchFree now fb fa st
      = (snd (watchHostels now fb fa (watchFree st) st))
          \<lparr>watchFree := fst (watchHostels now fb fa (watchFree st) st)\<rparr>"
    by (simp add: checkWatchFree_def case_prod_beta)
  show ?thesis
    using a b by (simp add: c watchHostels_state freeAt_freeSnapshot)
qed

theorem watchFree_check_witness:
  "freeAt (freeSnapshot [exRunning1]) ''LVH'' 3 = 0
   \<and> freeAt (freeSnapshot [exRunning1\<lparr>m_status := FREE\<rparr>]) ''LVH'' 3 = 1
   \<and> watchFree (checkWatchFree 200 (freeSnapshot [exRunning1])
        (freeSnapshot [exRunning1\<lparr>m_status := FREE\<rparr>]) exLaundry)
       = [(''LVH'', [(2, False), (3, False)])]
   \<and> notices (checkWatchFree 200 (freeSnapshot [exRunning1])
        (freeSnapshot [exRunning1\<lparr>m_status := FREE\<rparr>]) exLaundry)
       = [\<lparr>n_id = 200, n_title = ''A machine is now free on Floor 3.'', n_time = 200,
            n_kind = Success\<rparr>]
   \<and> watchFree (checkWatchFree 200 (freeSnapshot [exRunning1]) (freeSnapshot [exRunning1]) exLaundry)
       = [(''LVH'', [(2, False), (3, True)])]
   \<and> notices (checkWatchFree 200 (freeSnapshot [exRunning1]) (freeSnapshot [exRunning1]) exLaundry)
       = []
   \<and> freeAt (freeSnapshot [exFree\<lparr>m_floor := 3\<rparr>, exFree\<lparr>m_floor := 3\<rparr>]) ''LVH'' 3 = 2
   \<and> watchFree (checkWatchFree 200 (freeSnapshot [exFree\<lparr>m_floor := 3\<rparr>, exFree\<lparr>m_floor := 3\<rparr>])
        (freeSnapshot [exFree\<lparr>m_floor := 3\<rparr>, exFree\<lparr>m_floor := 3\<rparr>, exFree\<lparr>m_floor := 3\<rparr>])
        exLaundry)
       = [(''LVH'', [(2, False), (3, True)])]
   \<and> notices (checkWatchFree 200 (freeSnapshot [exFree\<lparr>m_floor := 3\<rparr>, exFree\<lparr>m_floor := 3\<rparr>])
        (freeSnapshot [exFree\<lparr>m_floor := 3\<rparr>, exFree\<lparr>m_floor := 3\<rparr>, exFree\<lparr>m_floor := 3\<rparr>])
        exLaundry)
       = []"
proof -
  let ?r = "exRunning1" and ?f = "exFree\<lparr>m_floor := 3\<rparr>"
  have wf: "watchFree exLaundry = [(''LVH'', [(2, False), (3, True)])]" "notices exLaundry = []"
    by (simp_all add: ex_defs)
  have t: "freeTitle 3 = ''A machine is now free on Floor 3.''"
    by code_simp
  have c: "freeAt (freeSnapshot [?r]) ''LVH'' 3 = 0"
      "freeAt (freeSnapshot [?r\<lparr>m_status := FREE\<rparr>]) ''LVH'' 3 = 1"
      "freeAt (freeSnapshot [?f, ?f]) ''LVH'' 3 = 2"
      "freeAt (freeSnapshot [?f, ?f, ?f]) ''LVH'' 3 = 3"
    using watchFree_check [where ms = "[?r]" and h' = "''LVH''" and f' = 3]
    by (simp_all add: freeAt_freeSnapshot ex_defs)
  show ?thesis
    using c wf t
      watchFree_check [of 200 exLaundry "[]" "''LVH''" 3 "freeSnapshot [?r]"
        "freeSnapshot [?r\<lparr>m_status := FREE\<rparr>]"]
      watchFree_check [of 200 exLaundry "[]" "''LVH''" 3 "freeSnapshot [?r]" "freeSnapshot [?r]"]
      watchFree_check [of 200 exLaundry "[]" "''LVH''" 3 "freeSnapshot [?f, ?f]"
        "freeSnapshot [?f, ?f, ?f]"]
    by (simp add: pushNotice_notices)
qed

section \<open>Machine registry operations\<close>



text \<open>
  C9. \<open>markCollected\<close> sets every machine with the given id to FREE with \<open>eta\<close> and
  \<open>lastCompletedAt\<close> cleared and leaves the others, and moves every wash record of that
  machine that is RUNNING or AWAITING to COLLECTED with \<open>endAt = now\<close>, leaving the others.
  A second call for the same machine changes nothing but the notice list, which gets the
  second notice.
\<close>

theorem markCollected_spec:
  "(let st1 = markCollected now mc st;
        st2 = markCollected now2 mc st1
    in length (machines st1) = length (machines st)
     \<and> (\<forall>i < length (machines st).
           machines st1 ! i =
             (if m_id (machines st ! i) = m_id mc
              then (machines st ! i)\<lparr>m_status := FREE, m_eta := None, m_lastCompletedAt := None\<rparr>
              else machines st ! i))
     \<and> length (washes st1) = length (washes st)
     \<and> (\<forall>i < length (washes st).
           washes st1 ! i =
             (if w_machineId (washes st ! i) = m_id mc \<and>
                 (w_status (washes st ! i) = WASH_RUNNING \<or> w_status (washes st ! i) = WASH_AWAITING)
              then (washes st ! i)\<lparr>w_status := WASH_COLLECTED, w_endAt := Some now\<rparr>
              else washes st ! i))
     \<and> st2 = pushNotice now2 (''Thank you! '' @ m_label mc @ '' is free now.'') Success st1)"
proof -
  let ?f = "\<lambda>m. if m_id m = m_id mc
                 then m\<lparr>m_status := FREE, m_eta := None, m_lastCompletedAt := None\<rparr> else m"
  let ?g = "\<lambda>n w. if w_machineId w = m_id mc \<and>
                             (w_status w = WASH_AWAITING \<or> w_status w = WASH_RUNNING)
                          then w\<lparr>w_status := WASH_COLLECTED, w_endAt := Some n\<rparr>
                          else w"
  have f: "?f \<circ> ?f = ?f"
    by (auto simp: fun_eq_iff)
  have g: "?g n2 \<circ> ?g n1 = ?g n1" for n1 n2
    by (auto simp: fun_eq_iff)
  have "markCollected now2 mc (markCollected now mc st)
          = pushNotice now2 (''Thank you! '' @ m_label mc @ '' is free now.'') Success
              (markCollected now mc st)"
    unfolding markCollected_def Let_def pushNotice_fields
    by (simp add: f g pushNotice_update_commute)
  then show ?thesis
    by (auto simp: Let_def markCollected_def)
qed

theorem markCollected_spec_witness:
  "machines (markCollected 300 exRunning1 exLaundry)
     = [exAwaiting, exRunning4,
        exRunning1\<lparr>m_status := FREE, m_eta := None, m_lastCompletedAt := None\<rparr>, exFree]
   \<and> washes (markCollected 300 exRunning1 exLaundry)
     = [exWash\<lparr>w_status := WASH_COLLECTED, w_endAt := Some 300\<rparr>]
   \<and> machines (markCollected 400 exRunning1 (markCollected 300 exRunning1 exLaundry))
     = machines (markCollected 300 exRunning1 exLaundry)
   \<and> washes (markCollected 400 exRunning1 (markCollected 300 exRunning1 exLaundry))
     = washes (markCollected 300 exRunning1 exLaundry)
   \<and> map n_kind (notices (markCollected 400 exRunning1 (markCollected 300 exRunning1 exLaundry)))
     = [Success, Success]"
proof -
  have len: "length (machines exLaundry) = 4" "length (washes exLaundry) = 1"
    by (simp_all add: ex_defs)
  have n: "notices (markCollected 300 exRunning1 exLaundry)
      = [\<lparr>n_id = 300, n_title = ''Thank you! M-3C is free now.'', n_time = 300, n_kind = Success\<rparr>]"
    by (simp add: markCollected_def Let_def pushNotice_notices ex_defs)
  have m: "machines (markCollected 300 exRunning1 exLaundry)
     = [exAwaiting, exRunning4,
        exRunning1\<lparr>m_status := FREE, m_eta := None, m_lastCompletedAt := None\<rparr>, exFree]"
    by (simp add: markCollected_def Let_def ex_defs)
  have w: "washes (markCollected 300 exRunning1 exLaundry)
     = [exWash\<lparr>w_status := WASH_COLLECTED, w_endAt := Some 300\<rparr>]"
    by (simp add: markCollected_def Let_def ex_defs)
  show ?thesis
    using markCollected_spec [of 300 exRunning1 exLaundry 400] n m w
    by (simp add: Let_def pushNotice_notices)
qed

lemma sendReminderEmail_fields [simp]:
  "machines (sendReminderEmail now mc st) = machines st"
  by (simp add: sendReminderEmail_def Let_def split: option.splits)

lemma sendReminderEmail_bounded:
  "length (notices st) \<le> 50 \<Longrightarrow> length (notices (sendReminderEmail now mc st)) \<le> 50"
  by (simp add: sendReminderEmail_def Let_def pushNotice_bounded split: option.splits)

lemma machineInv_tickMachine:
  "machineInv m \<Longrightarrow> machineInv (fst (tickMachine now m st))"
  by (auto simp: machineInv_def tickMachine_def Let_def split: option.splits)

text \<open>
  C1, as stated: after every core operation, for every machine, the status is RUNNING iff
  \<open>eta\<close> is defined and AWAITING iff \<open>lastCompletedAt\<close> is defined. In the example registry
  the invariant holds; reporting the AWAITING machine LVH-3-1 with \<open>affectStatus\<close> set makes
  it MAINT and clears \<open>eta\<close> only, so its \<open>lastCompletedAt\<close> stays defined.
\<close>

theorem submitReport_breaks_invariant:
  "registryInv exLaundry
   \<and> \<not> registryInv (submitReport 200 ''LVH-3-1'' ''Not working'' '''' None True exLaundry)"
  by (simp add: registryInv_def machineInv_def submitReport_def Let_def ex_defs)

text \<open>
  C1, amended. When the invariant holds for every machine before the operation, it holds
  for every machine after \<open>tick\<close>, \<open>markCollected\<close> and \<open>nudgeMachine\<close>; after \<open>startWash\<close>
  when no machine with the started id is AWAITING; after \<open>flagMachine\<close> when the flagged
  machine is not RUNNING; and after \<open>submitReport\<close> when \<open>affectStatus\<close> is false or no
  machine with the reported id is AWAITING.
\<close>

theorem registryInv_preserved:
  assumes "registryInv st"
  shows "registryInv (tick now st)
       \<and> registryInv (markCollected now mc st)
       \<and> registryInv (nudgeMachine now i st)
       \<and> ((\<forall>m \<in> set (machines st). m_id m = m_id mc \<longrightarrow> m_status m \<noteq> AWAITING)
            \<longrightarrow> registryInv (startWash now mc minutes st))
       \<and> ((i < length (machines st) \<longrightarrow> m_status (machines st ! i) \<noteq> RUNNING)
            \<longrightarrow> registryInv (flagMachine now i st))
       \<and> ((affect \<longrightarrow> (\<forall>m \<in> set (machines st). m_id m = mid \<longrightarrow> m_status m \<noteq> AWAITING))
            \<longrightarrow> registryInv (submitReport now mid reason nts photo affect st))"
proof -
  have inv: "machineInv m" if "m \<in> set (machines st)" for m
    using assms that by (simp add: registryInv_def)
  have nth: "machineInv (machines st ! j)" if "j < length (machines st)" for j
    using that by (simp add: inv)
  have 1: "registryInv (tick now st)"
    using inv
    by (auto simp: registryInv_def tick_applyCountdown applyCountdown_machines
          machineInv_tickMachine)
  have 2: "registryInv (markCollected now mc st)"
    using inv by (auto simp: registryInv_def markCollected_def Let_def machineInv_def)
  have 3: "registryInv (nudgeMachine now i st)"
  proof (cases "i < length (machines st)")
    case True
    have "machineInv ((machines st ! i)\<lparr>m_nudgeCount := c\<rparr>)" for c
      using nth [OF True] by (simp add: machineInv_def)
    then show ?thesis
      using True inv
      by (auto simp: registryInv_def nudgeMachine_def Let_def dest!: set_update_subset_insert [THEN subsetD])
  next
    case False
    then show ?thesis using assms by (simp add: nudgeMachine_def)
  qed
  have 4: "registryInv (startWash now mc minutes st)"
    if "\<forall>m \<in> set (machines st). m_id m = m_id mc \<longrightarrow> m_status m \<noteq> AWAITING"
    using inv that by (auto simp: registryInv_def startWash_def Let_def machineInv_def)
  have 5: "registryInv (flagMachine now i st)"
    if h: "i < length (machines st) \<longrightarrow> m_status (machines st ! i) \<noteq> RUNNING"
  proof (cases "i < length (machines st)")
    case True
    have a: "machineInv ((machines st ! i)\<lparr>m_flagCount := c\<rparr>)" for c
      using nth [OF True] by (simp add: machineInv_def)
    have b: "machineInv ((machines st ! i)\<lparr>m_flagCount := c, m_nudgeCount := d,
                 m_status := AWAITING, m_lastCompletedAt := Some now\<rparr>)" for c d
      using nth [OF True] h True by (auto simp: machineInv_def)
    show ?thesis
      using True inv a b
      by (auto simp: registryInv_def flagMachine_def Let_def dest!: set_update_subset_insert [THEN subsetD])
  next
    case False
    then show ?thesis using assms by (simp add: flagMachine_def)
  qed
  have 6: "registryInv (submitReport now mid reason nts photo affect st)"
    if "affect \<longrightarrow> (\<forall>m \<in> set (machines st). m_id m = mid \<longrightarrow> m_status m \<noteq> AWAITING)"
    using inv that by (auto simp: registryInv_def submitReport_def Let_def machineInv_def)
  show ?thesis
    using 1 2 3 4 5 6 by blast
qed

theorem registryInv_preserved_witness:
  "registryInv exLaundry
   \<and> registryInv (tick 200 exLaundry)
   \<and> registryInv (markCollected 200 exAwaiting exLaundry)
   \<and> registryInv (nudgeMachine 200 0 exLaundry)
   \<and> registryInv (startWash 200 exFree 35 exLaundry)
   \<and> registryInv (flagMachine 200 0 exLaundry)
   \<and> registryInv (submitReport 200 ''LVH-2-1'' ''Not working'' '''' None True exLaundry)"
proof -
  have h: "registryInv exLaundry"
    by (simp add: registryInv_def machineInv_def ex_defs)
  have a: "\<forall>m \<in> set (machines exLaundry). m_id m = m_id exFree \<longrightarrow> m_status m \<noteq> AWAITING"
    by (simp add: ex_defs)
  have b: "0 < length (machines exLaundry) \<longrightarrow> m_status (machines exLaundry ! 0) \<noteq> RUNNING"
    by (simp add: ex_defs)
  have c: "True \<longrightarrow> (\<forall>m \<in> set (machines exLaundry). m_id m = ''LVH-2-1'' \<longrightarrow> m_status m \<noteq> AWAITING)"
    by (simp add: ex_defs)
  show ?thesis
    using h a b c
      registryInv_preserved [OF h, where now = 200 and mc = exAwaiting and i = 0]
      registryInv_preserved [OF h, where now = 200 and mc = exFree and i = 0 and minutes = 35
        and affect = True and mid = "''LVH-2-1''" and reason = "''Not working''"
        and nts = "''''" and photo = None]
    by blast
qed

section \<open>The cap on the notice list\<close>

text \<open>
  C7. With at most 50 notices stored, \<open>pushNotice\<close> puts the new notice at the head; when 50
  were stored the last one is dropped and the others keep their order, otherwise all are
  kept. The list so never exceeds 50 entries after \<open>pushNotice\<close>, nor after any
  operation of the registry or the ledger, all of which reach the list through
  \<open>pushNotice\<close> only.
\<close>

theorem notices_capped:
  assumes "length (notices st) \<le> 50"
  shows "notices (pushNotice now t k st) =
           (if length (notices st) = 50
            then \<lparr>n_id = now, n_title = t, n_time = now, n_kind = k\<rparr> # butlast (notices st)
            else \<lparr>n_id = now, n_title = t, n_time = now, n_kind = k\<rparr> # notices st)
       \<and> length (notices (pushNotice now t k st)) \<le> 50
       \<and> length (notices (startWash now mc minutes st)) \<le> 50
       \<and> length (notices (tick now st)) \<le> 50
       \<and> length (notices (markCollected now mc st)) \<le> 50
       \<and> length (notices (nudgeUser now mc st)) \<le> 50
       \<and> length (notices (nudgeMachine now i st)) \<le> 50
       \<and> length (notices (flagMachine now i st)) \<le> 50
       \<and> length (notices (submitReport now mid reason nts photo affect st)) \<le> 50
       \<and> length (notices (submitBooking now rm s e reason st)) \<le> 50
       \<and> length (notices (simulateApproval now bid st)) \<le> 50
       \<and> length (notices (cancelBooking now bid st)) \<le> 50
       \<and> (\<forall>st'. extendBooking now bid e st = Inr st' \<longrightarrow> length (notices st') \<le> 50)
       \<and> (\<forall>st'. modifyBooking now bid s e r st = Inr st' \<longrightarrow> length (notices st') \<le> 50)"
proof -
  have p: "length (notices (pushNotice now t k st')) \<le> 50"
    if "notices st' = notices st" for st' t k
    using that assms by (simp add: pushNotice_notices)
  have 1: "notices (pushNotice now t k st) =
           (if length (notices st) = 50
            then \<lparr>n_id = now, n_title = t, n_time = now, n_kind = k\<rparr> # butlast (notices st)
            else \<lparr>n_id = now, n_title = t, n_time = now, n_kind = k\<rparr> # notices st)"
    using assms by (simp add: pushNotice_notices)
  have 2: "length (notices (startWash now mc minutes st)) \<le> 50"
    by (simp add: startWash_def Let_def p)
  have 3: "length (notices (tick now st)) \<le> 50"
    using assms by (rule tick_bounded)
  have 4: "length (notices (markCollected now mc st)) \<le> 50"
    by (simp add: markCollected_def Let_def p)
  have 5: "length (notices (nudgeUser now mc st)) \<le> 50"
    by (simp add: nudgeUser_def p)
  have 6: "length (notices (nudgeMachine now i st)) \<le> 50"
    using assms by (simp add: nudgeMachine_def Let_def p sendReminderEmail_bounded)
  have 7: "length (notices (flagMachine now i st)) \<le> 50"
    using assms by (simp add: flagMachine_def Let_def p)
  have 8: "length (notices (submitReport now mid reason nts photo affect st)) \<le> 50"
    by (simp add: submitReport_def Let_def p)
  have 9: "length (notices (submitBooking now rm s e reason st)) \<le> 50"
    by (simp add: submitBooking_def Let_def p)
  have 10: "length (notices (simulateApproval now bid st)) \<le> 50"
    using assms by (simp add: simulateApproval_def Let_def p split: option.splits)
  have 11: "length (notices (cancelBooking now bid st)) \<le> 50"
    using assms by (simp add: cancelBooking_def Let_def p split: option.splits)
  have 12: "\<forall>st'. extendBooking now bid e st = Inr st' \<longrightarrow> length (notices st') \<le> 50"
    using assms by (auto simp: extendBooking_def Let_def p split: option.splits if_splits)
  have 13: "\<forall>st'. modifyBooking now bid s e r st = Inr st' \<longrightarrow> length (notices st') \<le> 50"
    using assms by (auto simp: modifyBooking_def Let_def p split: option.splits if_splits)
  show ?thesis
    using assms 1 2 3 4 5 6 7 8 9 10 11 12 13 p [of st] by simp
qed

theorem notices_capped_witness:
  "length (notices exFull) \<le> 50
   \<and> notices (pushNotice 77 ''Profile updated'' Success exFull)
       = \<lparr>n_id = 77, n_title = ''Profile updated'', n_time = 77, n_kind = Success\<rparr>
           # map exNotice (rev [1..<50])
   \<and> length (notices (tick 77 exFull)) \<le> 50
   \<and> length (notices (nudgeUser 77 exFree exFull)) \<le> 50"
proof -
  have h: "length (notices exFull) \<le> 50" by (simp add: exFull_def emptyState_def)
  have l: "length (notices exFull) = 50" by (simp add: exFull_def emptyState_def)
  have "butlast (rev [0..<50]) = rev [1..<50]"
    by (simp add: butlast_rev tl_upt)
  then have b: "butlast (notices exFull) = map exNotice (rev [1..<50])"
    by (simp add: exFull_def emptyState_def map_butlast [symmetric])
  show ?thesis
    using h l b notices_capped [OF h, where now = 77 and t = "''Profile updated''" and k = Success
      and mc = exFree]
    by simp
qed

end
